theory Spec2Isabelle
  imports Complex_Main "HOL-Library.AList" "HOL-Library.Sublist"
begin

section \<open>Temporal degree centrality (overtime/algorithms/centrality/degree.py)\<close>

subsection \<open>Data model\<close>

text \<open>
  Node labels are strings. An edge is read by the function only through
  \<^verbatim>\<open>edge.node1.label\<close> and \<^verbatim>\<open>edge.node2.label\<close>; its timestamp matters to the
  graph's own methods. Timestamps are Python integers.
\<close>

type_synonym label = string

record edge =
  node1_label :: label
  node2_label :: label
  timestamp :: int

text \<open>
  The class of the graph is not part of the source file. The function observes a graph
  only through five calls, so a graph is the record of what those calls answer:
  \<^verbatim>\<open>graph.nodes.labels()\<close>, \<^verbatim>\<open>graph.nodes.count()\<close>, \<^verbatim>\<open>graph.edges.aslist()\<close>,
  \<^verbatim>\<open>graph.edges.start()\<close> and \<^verbatim>\<open>graph.edges.end()\<close>. The sixth call,
  \<^verbatim>\<open>graph.get_temporal_subgraph(intervals)\<close>, is a parameter \<open>sub\<close> of every function
  below.
\<close>

record graph =
  nodes_labels :: "label list"
  nodes_count :: int
  edges_aslist :: "edge list"
  edges_start :: int
  edges_end :: int

type_synonym interval = "int \<times> int"

text \<open>The exceptions that the statements of the function can raise.\<close>

datatype error =
  KeyError label
  | ZeroDivisionError
  | UnboundLocalError string

text \<open>
  A Python \<^verbatim>\<open>dict\<close> keeps its keys in insertion order, and the order is what the final
  sort breaks ties with: a dict is an association list with distinct keys. Storing under a
  key that is present replaces the value in place, storing under a new key appends
  (\<^const>\<open>AList.update\<close>).
\<close>

type_synonym 'v dict = "(label \<times> 'v) list"

definition dict_getitem :: "'v dict \<Rightarrow> label \<Rightarrow> error + 'v" where
  "dict_getitem d k = (case map_of d k of None \<Rightarrow> Inl (KeyError k) | Some v \<Rightarrow> Inr v)"

definition dict_setitem :: "'v dict \<Rightarrow> label \<Rightarrow> 'v \<Rightarrow> 'v dict" where
  "dict_setitem d k v = AList.update k v d"

text \<open>A dict comprehension \<^verbatim>\<open>{k: v for k, v in items}\<close> stores the items one by one.\<close>

definition dict_of_items :: "(label \<times> 'v) list \<Rightarrow> 'v dict" where
  "dict_of_items items = fold (\<lambda>(k, v) d. dict_setitem d k v) items []"

subsection \<open>The statements of the function\<close>

text \<open>
  Lines 52-53: \<^verbatim>\<open>if intervals: graph = graph.get_temporal_subgraph(intervals)\<close>.
  \<^verbatim>\<open>None\<close> and the empty tuple are both false.
\<close>

definition restricted_graph ::
  "(graph \<Rightarrow> interval list \<Rightarrow> graph) \<Rightarrow> graph \<Rightarrow> interval list option \<Rightarrow> graph" where
  "restricted_graph sub g intervals =
     (case intervals of
        None \<Rightarrow> g
      | Some ivs \<Rightarrow> if ivs = [] then g else sub g ivs)"

text \<open>
  Lines 56-57: \<^verbatim>\<open>if not labels: labels = graph.nodes.labels()\<close>, on the graph as
  rebound by the lines before.
\<close>

definition working_labels :: "graph \<Rightarrow> label list option \<Rightarrow> label list" where
  "working_labels g labels =
     (case labels of
        None \<Rightarrow> nodes_labels g
      | Some ls \<Rightarrow> if ls = [] then nodes_labels g else ls)"

text \<open>Line 60: \<^verbatim>\<open>node_count = {label: 0 for label in labels}\<close>.\<close>

definition init_node_count :: "label list \<Rightarrow> int dict" where
  "init_node_count labels = dict_of_items (map (\<lambda>l. (l, 0)) labels)"

text \<open>
  Lines 65 and 66: \<^verbatim>\<open>node_count[k] += 1\<close> reads the entry, which raises
  \<^verbatim>\<open>KeyError\<close> for a key that is absent, and stores the sum.
\<close>

definition increment :: "int dict \<Rightarrow> label \<Rightarrow> error + int dict" where
  "increment node_count k =
     (case dict_getitem node_count k of
        Inl err \<Rightarrow> Inl err
      | Inr v \<Rightarrow> Inr (dict_setitem node_count k (v + 1)))"

text \<open>Lines 63-66: the loop over the edge list; the first exception ends it.\<close>

fun count_degrees :: "edge list \<Rightarrow> int dict \<Rightarrow> error + int dict" where
  "count_degrees [] node_count = Inr node_count"
| "count_degrees (e # es) node_count =
     (case increment node_count (node1_label e) of
        Inl err \<Rightarrow> Inl err
      | Inr nc1 \<Rightarrow>
          (case increment nc1 (node2_label e) of
             Inl err \<Rightarrow> Inl err
           | Inr nc2 \<Rightarrow> count_degrees es nc2))"

text \<open>
  Lines 51-66 together: the raw counts, before normalisation, or the exception of the
  loop.
\<close>

definition raw_degree_counts ::
  "(graph \<Rightarrow> interval list \<Rightarrow> graph) \<Rightarrow> graph \<Rightarrow> label list option \<Rightarrow>
     interval list option \<Rightarrow> error + int dict" where
  "raw_degree_counts sub g labels intervals =
     (let graph = restricted_graph sub g intervals;
          labels = working_labels graph labels
      in count_degrees (edges_aslist graph) (init_node_count labels))"

text \<open>Line 70: the divisor, read off the graph as rebound by line 53.\<close>

definition normalization_factor :: "graph \<Rightarrow> int" where
  "normalization_factor graph = (nodes_count graph - 1) * (edges_end graph - edges_start graph)"

text \<open>
  Line 71: \<^verbatim>\<open>value / normalization_factor\<close> is Python's true division of two integers.
  It raises \<^verbatim>\<open>ZeroDivisionError\<close> for a zero divisor; otherwise the score is the
  quotient, kept here as the exact rational that the Python float approximates.
\<close>

definition true_div :: "int \<Rightarrow> int \<Rightarrow> error + rat" where
  "true_div a b = (if b = 0 then Inl ZeroDivisionError else Inr (of_int a / of_int b))"

text \<open>
  Line 71: the comprehension divides the items in order and stops at the first
  exception. Over an empty dict nothing is divided.
\<close>

fun normalized_items :: "int \<Rightarrow> (label \<times> int) list \<Rightarrow> error + (label \<times> rat) list" where
  "normalized_items nf [] = Inr []"
| "normalized_items nf ((l, v) # items) =
     (case true_div v nf of
        Inl err \<Rightarrow> Inl err
      | Inr q \<Rightarrow>
          (case normalized_items nf items of
             Inl err \<Rightarrow> Inl err
           | Inr rest \<Rightarrow> Inr ((l, q) # rest)))"

definition normalized_degree :: "graph \<Rightarrow> int dict \<Rightarrow> error + rat dict" where
  "normalized_degree graph node_count =
     (case normalized_items (normalization_factor graph) node_count of
        Inl err \<Rightarrow> Inl err
      | Inr items \<Rightarrow> Inr (dict_of_items items))"

text \<open>
  Lines 69-71: \<^verbatim>\<open>temporal_degree\<close> is assigned only under \<^verbatim>\<open>if normalize:\<close>. After the
  statement the variable is bound (\<open>Some\<close>) or still unbound (\<open>None\<close>).
\<close>

definition temporal_degree_binding ::
  "bool \<Rightarrow> graph \<Rightarrow> int dict \<Rightarrow> error + rat dict option" where
  "temporal_degree_binding normalize_flag graph node_count =
     (if normalize_flag then
        (case normalized_degree graph node_count of
           Inl err \<Rightarrow> Inl err
         | Inr td \<Rightarrow> Inr (Some td))
      else Inr None)"

text \<open>
  Lines 74-76: \<^verbatim>\<open>sorted(items, key=lambda item: item[1], reverse=True)\<close>. Python sorts
  stably, and with \<^verbatim>\<open>reverse=True\<close> it reverses the list, sorts it stably in ascending
  order of the key and reverses the outcome. \<^const>\<open>sort_key\<close> is a stable insertion sort.
\<close>

definition sorted_reverse :: "(label \<times> rat) list \<Rightarrow> (label \<times> rat) list" where
  "sorted_reverse items = rev (sort_key snd (rev items))"

text \<open>
  Lines 69-76 on the dict of raw counts. Reading \<^verbatim>\<open>temporal_degree\<close> on line 74 while
  it is unbound raises \<^verbatim>\<open>UnboundLocalError\<close>; otherwise \<^verbatim>\<open>sorted_temporal_degree\<close> is
  the dict built from the sorted items.
\<close>

definition sorted_temporal_degree :: "bool \<Rightarrow> graph \<Rightarrow> int dict \<Rightarrow> error + rat dict" where
  "sorted_temporal_degree normalize_flag graph node_count =
     (case temporal_degree_binding normalize_flag graph node_count of
        Inl err \<Rightarrow> Inl err
      | Inr None \<Rightarrow> Inl (UnboundLocalError ''temporal_degree'')
      | Inr (Some temporal_degree) \<Rightarrow> Inr (dict_of_items (sorted_reverse temporal_degree)))"

text \<open>The whole function, lines 51-78.\<close>

definition temporal_degree_centrality ::
  "(graph \<Rightarrow> interval list \<Rightarrow> graph) \<Rightarrow> graph \<Rightarrow> label list option \<Rightarrow>
     interval list option \<Rightarrow> bool \<Rightarrow> error + rat dict" where
  "temporal_degree_centrality sub g labels intervals normalize_flag =
     (case raw_degree_counts sub g labels intervals of
        Inl err \<Rightarrow> Inl err
      | Inr node_count \<Rightarrow>
          sorted_temporal_degree normalize_flag (restricted_graph sub g intervals) node_count)"

text \<open>
  Line 71 alone, after lines 51-66: the dict \<^verbatim>\<open>temporal_degree\<close> as it stands before
  the sort of lines 74-76.
\<close>

definition presort_temporal_degree ::
  "(graph \<Rightarrow> interval list \<Rightarrow> graph) \<Rightarrow> graph \<Rightarrow> label list option \<Rightarrow>
     interval list option \<Rightarrow> error + rat dict" where
  "presort_temporal_degree sub g labels intervals =
     (case raw_degree_counts sub g labels intervals of
        Inl err \<Rightarrow> Inl err
      | Inr node_count \<Rightarrow> normalized_degree (restricted_graph sub g intervals) node_count)"

text \<open>
  How often a label is an endpoint in an edge list; an edge from a node to itself counts
  twice.
\<close>

definition endpoint_occurrences :: "edge list \<Rightarrow> label \<Rightarrow> nat" where
  "endpoint_occurrences es l =
     length (filter (\<lambda>e. node1_label e = l) es) + length (filter (\<lambda>e. node2_label e = l) es)"

subsection \<open>The function on a heap of objects\<close>

text \<open>
  The function once more, for what it does to the objects of its caller. Objects live in a
  heap, a list indexed by addresses; creating an object appends it, so its address is new.
  The graph and the list of labels are passed by address. A call returns the heap it
  leaves behind and either the exception or the address of the dict it returns. The
  methods of the graph class are taken to read the graph only and to return new objects,
  as the specification describes them. A reference that does not hold an object of the
  class the function expects is no input of the typed model: the call is \<open>None\<close>.
\<close>

datatype obj =
  GraphObj graph
  | ListObj "label list"
  | CountsObj "int dict"
  | ScoresObj "rat dict"

type_synonym addr = nat
type_synonym heap = "obj list"

definition alloc :: "heap \<Rightarrow> obj \<Rightarrow> heap \<times> addr" where
  "alloc h ob = (h @ [ob], length h)"

definition heap_get :: "heap \<Rightarrow> addr \<Rightarrow> obj option" where
  "heap_get h a = (if a < length h then Some (h ! a) else None)"

definition graph_at :: "heap \<Rightarrow> addr \<Rightarrow> graph option" where
  "graph_at h a = (case heap_get h a of Some (GraphObj g) \<Rightarrow> Some g | _ \<Rightarrow> None)"

definition list_at :: "heap \<Rightarrow> addr \<Rightarrow> label list option" where
  "list_at h a = (case heap_get h a of Some (ListObj ls) \<Rightarrow> Some ls | _ \<Rightarrow> None)"

definition counts_at :: "heap \<Rightarrow> addr \<Rightarrow> int dict option" where
  "counts_at h a = (case heap_get h a of Some (CountsObj d) \<Rightarrow> Some d | _ \<Rightarrow> None)"

definition scores_at :: "heap \<Rightarrow> addr \<Rightarrow> rat dict option" where
  "scores_at h a = (case heap_get h a of Some (ScoresObj d) \<Rightarrow> Some d | _ \<Rightarrow> None)"

definition labels_argument :: "heap \<Rightarrow> addr option \<Rightarrow> label list option option" where
  "labels_argument h labels_ref =
     (case labels_ref of
        None \<Rightarrow> Some None
      | Some a \<Rightarrow> (case list_at h a of None \<Rightarrow> None | Some ls \<Rightarrow> Some (Some ls)))"

text \<open>
  Lines 65 and 66 on the dict object at address \<open>a\<close>: the entry is replaced in the object
  itself.
\<close>

definition increment_at :: "heap \<Rightarrow> addr \<Rightarrow> label \<Rightarrow> (heap \<times> (error + unit)) option" where
  "increment_at h a k =
     (case counts_at h a of
        None \<Rightarrow> None
      | Some node_count \<Rightarrow>
          (case dict_getitem node_count k of
             Inl err \<Rightarrow> Some (h, Inl err)
           | Inr v \<Rightarrow> Some (h[a := CountsObj (dict_setitem node_count k (v + 1))], Inr ())))"

fun count_degrees_at :: "edge list \<Rightarrow> addr \<Rightarrow> heap \<Rightarrow> (heap \<times> (error + unit)) option" where
  "count_degrees_at [] a h = Some (h, Inr ())"
| "count_degrees_at (e # es) a h =
     (case increment_at h a (node1_label e) of
        None \<Rightarrow> None
      | Some (h1, Inl err) \<Rightarrow> Some (h1, Inl err)
      | Some (h1, Inr _) \<Rightarrow>
          (case increment_at h1 a (node2_label e) of
             None \<Rightarrow> None
           | Some (h2, Inl err) \<Rightarrow> Some (h2, Inl err)
           | Some (h2, Inr _) \<Rightarrow> count_degrees_at es a h2))"

text \<open>
  Lines 69-76: \<^verbatim>\<open>temporal_degree\<close> and \<^verbatim>\<open>sorted_temporal_degree\<close> are two new dicts.
  The list of sorted items in between is dropped once the second dict is built.
\<close>

definition sorted_temporal_degree_at ::
  "heap \<Rightarrow> graph \<Rightarrow> addr \<Rightarrow> bool \<Rightarrow> (heap \<times> (error + addr)) option" where
  "sorted_temporal_degree_at h graph node_count_ref normalize_flag =
     (case counts_at h node_count_ref of
        None \<Rightarrow> None
      | Some node_count \<Rightarrow>
          if normalize_flag then
            (case normalized_degree graph node_count of
               Inl err \<Rightarrow> Some (h, Inl err)
             | Inr temporal_degree \<Rightarrow>
                 (let (h1, temporal_degree_ref) = alloc h (ScoresObj temporal_degree);
                      (h2, sorted_ref) =
                        alloc h1 (ScoresObj (dict_of_items (sorted_reverse temporal_degree)))
                  in Some (h2, Inr sorted_ref)))
          else Some (h, Inl (UnboundLocalError ''temporal_degree'')))"

text \<open>
  What a caller sees of a call: the exception, or the content of the dict at the returned
  address. \<open>returned\<close> puts a value of the function into the same form.
\<close>

definition outcome :: "heap \<Rightarrow> error + addr \<Rightarrow> error + rat dict option" where
  "outcome h r = (case r of Inl err \<Rightarrow> Inl err | Inr a \<Rightarrow> Inr (scores_at h a))"

definition returned :: "error + rat dict \<Rightarrow> error + rat dict option" where
  "returned r = (case r of Inl err \<Rightarrow> Inl err | Inr d \<Rightarrow> Inr (Some d))"

text \<open>
  Line 53 binds \<^verbatim>\<open>graph\<close> to a new graph object, line 57 binds \<^verbatim>\<open>labels\<close> to a new
  list; the objects of the caller stay where they are.
\<close>

definition rebind_graph ::
  "(graph \<Rightarrow> interval list \<Rightarrow> graph) \<Rightarrow> heap \<Rightarrow> graph \<Rightarrow> interval list option \<Rightarrow>
     heap \<times> graph" where
  "rebind_graph sub h g intervals =
     (case intervals of
        None \<Rightarrow> (h, g)
      | Some ivs \<Rightarrow>
          if ivs = [] then (h, g)
          else (fst (alloc h (GraphObj (sub g ivs))), sub g ivs))"

definition rebind_labels :: "heap \<Rightarrow> graph \<Rightarrow> label list option \<Rightarrow> heap \<times> label list" where
  "rebind_labels h graph labels =
     (case labels of
        None \<Rightarrow> (fst (alloc h (ListObj (nodes_labels graph))), nodes_labels graph)
      | Some ls \<Rightarrow>
          if ls = [] then (fst (alloc h (ListObj (nodes_labels graph))), nodes_labels graph)
          else (h, ls))"

text \<open>The whole function on the heap; line 60 creates the dict of counts.\<close>

definition temporal_degree_centrality_at ::
  "(graph \<Rightarrow> interval list \<Rightarrow> graph) \<Rightarrow> heap \<Rightarrow> addr \<Rightarrow> addr option \<Rightarrow>
     interval list option \<Rightarrow> bool \<Rightarrow> (heap \<times> (error + addr)) option" where
  "temporal_degree_centrality_at sub h graph_ref labels_ref intervals normalize_flag =
     (case graph_at h graph_ref of
        None \<Rightarrow> None
      | Some g \<Rightarrow>
          (case labels_argument h labels_ref of
             None \<Rightarrow> None
           | Some labels_arg \<Rightarrow>
               (let (h1, graph) = rebind_graph sub h g intervals;
                    (h2, labels) = rebind_labels h1 graph labels_arg;
                    (h3, node_count_ref) = alloc h2 (CountsObj (init_node_count labels))
                in case count_degrees_at (edges_aslist graph) node_count_ref h3 of
                     None \<Rightarrow> None
                   | Some (h4, Inl err) \<Rightarrow> Some (h4, Inl err)
                   | Some (h4, Inr _) \<Rightarrow> sorted_temporal_degree_at h4 graph node_count_ref normalize_flag)))"

subsection \<open>The subgraph extraction\<close>

text \<open>
  Modelled from the spec: the method \<^verbatim>\<open>get_temporal_subgraph\<close> of the graph class is
  not part of the source file, and neither is a window's test of a timestamp. The
  specification's example retains the timestamps 1 and 2, not 3, for the window \<open>(0, 3)\<close>,
  so a window holds the timestamps \<open>t\<close> with \<open>start \<le> t < end\<close>; an edge is retained when
  some window holds its timestamp.
\<close>

definition in_interval :: "int \<Rightarrow> interval \<Rightarrow> bool" where
  "in_interval t iv = (fst iv \<le> t \<and> t < snd iv)"

definition retained :: "interval list \<Rightarrow> edge \<Rightarrow> bool" where
  "retained ivs e = list_ex (in_interval (timestamp e)) ivs"

text \<open>
  Modelled from the spec: \<^verbatim>\<open>edges.start()\<close> and \<^verbatim>\<open>edges.end()\<close> of the graph class are
  not part of the source file. The specification describes them as the minimum and the
  maximum timestamp across the current edges, and an empty edge list as having duration
  zero.
\<close>

fun timestamps_min :: "edge list \<Rightarrow> int" where
  "timestamps_min [] = 0"
| "timestamps_min [e] = timestamp e"
| "timestamps_min (e # es) = min (timestamp e) (timestamps_min es)"

fun timestamps_max :: "edge list \<Rightarrow> int" where
  "timestamps_max [] = 0"
| "timestamps_max [e] = timestamp e"
| "timestamps_max (e # es) = max (timestamp e) (timestamps_max es)"

text \<open>
  Modelled from the spec: whether a node of the graph is an endpoint of an edge that the
  subgraph keeps, for the reading of \<^verbatim>\<open>get_temporal_subgraph\<close> in which the subgraph has
  only such nodes.
\<close>

definition has_edge :: "edge list \<Rightarrow> label \<Rightarrow> bool" where
  "has_edge es l = list_ex (\<lambda>e. node1_label e = l \<or> node2_label e = l) es"

text \<open>
  Modelled from the spec: the method \<^verbatim>\<open>get_temporal_subgraph\<close> of the graph class,
  which is not part of the source file. The specification describes it as returning a new
  graph restricted to the union of the given \<open>(start, end)\<close> windows, where edges outside
  all windows are dropped. It leaves open whether the subgraph keeps the node list of the
  graph or only the nodes that still have an edge: the flag \<open>prune\<close> selects the second
  reading.
\<close>

definition get_temporal_subgraph :: "bool \<Rightarrow> graph \<Rightarrow> interval list \<Rightarrow> graph" where
  "get_temporal_subgraph prune g ivs =
     (let es = filter (retained ivs) (edges_aslist g);
          ls = (if prune then filter (has_edge es) (nodes_labels g) else nodes_labels g)
      in \<lparr>nodes_labels = ls,
          nodes_count = (if prune then int (length ls) else nodes_count g),
          edges_aslist = es,
          edges_start = timestamps_min es,
          edges_end = timestamps_max es\<rparr>)"

subsection \<open>Example graphs\<close>

text \<open>
  The graph of the specification's example scenario: nodes A, B, C and the edges
  (A,B) at 1, (B,C) at 2, (A,C) at 3.
\<close>

definition example_graph :: graph where
  "example_graph =
     \<lparr>nodes_labels = [''A'', ''B'', ''C''],
      nodes_count = 3,
      edges_aslist =
        [\<lparr>node1_label = ''A'', node2_label = ''B'', timestamp = 1\<rparr>,
         \<lparr>node1_label = ''B'', node2_label = ''C'', timestamp = 2\<rparr>,
         \<lparr>node1_label = ''A'', node2_label = ''C'', timestamp = 3\<rparr>],
      edges_start = 1,
      edges_end = 3\<rparr>"

text \<open>A graph with no node and no edge; its edge list has duration zero.\<close>

definition empty_graph :: graph where
  "empty_graph =
     \<lparr>nodes_labels = [], nodes_count = 0, edges_aslist = [], edges_start = 0, edges_end = 0\<rparr>"

text \<open>Two nodes and two edges between them, at the times 1 and 4.\<close>

definition pair_graph :: graph where
  "pair_graph =
     \<lparr>nodes_labels = [''A'', ''B''],
      nodes_count = 2,
      edges_aslist =
        [\<lparr>node1_label = ''A'', node2_label = ''B'', timestamp = 1\<rparr>,
         \<lparr>node1_label = ''A'', node2_label = ''B'', timestamp = 4\<rparr>],
      edges_start = 1,
      edges_end = 4\<rparr>"

text \<open>A path of four nodes: the edges (A,B) at 1, (B,C) at 2 and (C,D) at 5.\<close>

definition path_graph :: graph where
  "path_graph =
     \<lparr>nodes_labels = [''A'', ''B'', ''C'', ''D''],
      nodes_count = 4,
      edges_aslist =
        [\<lparr>node1_label = ''A'', node2_label = ''B'', timestamp = 1\<rparr>,
         \<lparr>node1_label = ''B'', node2_label = ''C'', timestamp = 2\<rparr>,
         \<lparr>node1_label = ''C'', node2_label = ''D'', timestamp = 5\<rparr>],
      edges_start = 1,
      edges_end = 5\<rparr>"

text \<open>A heap holding a list of labels and the graph of two nodes.\<close>

definition example_heap :: heap where
  "example_heap = [ListObj [''B'', ''A''], GraphObj pair_graph]"

section \<open>Properties\<close>

subsection \<open>Dicts\<close>

lemma update_fresh: "k \<notin> fst ` set al \<Longrightarrow> AList.update k v al = al @ [(k, v)]"
  by (induction al) auto

lemma fold_setitem_distinct:
  "distinct (map fst (acc @ xs)) \<Longrightarrow> fold (\<lambda>(k, v) d. dict_setitem d k v) xs acc = acc @ xs"
proof (induction xs arbitrary: acc)
  case Nil
  then show ?case by simp
next
  case (Cons x xs)
  obtain k v where x: "x = (k, v)" by (cases x)
  from Cons.prems have fresh: "k \<notin> fst ` set acc" by (auto simp: x)
  from Cons.prems have "distinct (map fst ((acc @ [(k, v)]) @ xs))" by (simp add: x)
  from Cons.IH[OF this] show ?case
    by (simp add: x dict_setitem_def update_fresh[OF fresh])
qed

lemma dict_of_items_distinct: "distinct (map fst xs) \<Longrightarrow> dict_of_items xs = xs"
  using fold_setitem_distinct[of "[]" xs] by (simp add: dict_of_items_def)

lemma fold_setitem_keys_distinct:
  "distinct (map fst acc) \<Longrightarrow> distinct (map fst (fold (\<lambda>(k, v) d. dict_setitem d k v) xs acc))"
  by (induction xs arbitrary: acc) (auto simp: dict_setitem_def distinct_update)

lemma fold_setitem_map_of:
  "map_of (fold (\<lambda>(k, v) d. dict_setitem d k v) xs acc) = map_of acc ++ map_of (rev xs)"
  by (induction xs arbitrary: acc) (auto simp: dict_setitem_def update_conv' map_add_upd_left)

lemma fold_setitem_keys:
  "fst ` set (fold (\<lambda>(k, v) d. dict_setitem d k v) xs acc) = fst ` set acc \<union> fst ` set xs"
proof (induction xs arbitrary: acc)
  case Nil
  then show ?case by simp
next
  case (Cons x xs)
  obtain k v where x: "x = (k, v)" by (cases x)
  have "fst ` set (dict_setitem acc k v) = {k} \<union> fst ` set acc"
    by (simp add: dict_setitem_def dom_update)
  with Cons.IH[of "dict_setitem acc k v"] show ?case by (auto simp: x)
qed

lemma init_node_count_distinct: "distinct (map fst (init_node_count ls))"
  by (simp add: init_node_count_def dict_of_items_def fold_setitem_keys_distinct)

lemma init_node_count_keys: "fst ` set (init_node_count ls) = set ls"
  by (simp add: init_node_count_def dict_of_items_def fold_setitem_keys image_image)

lemma init_node_count_values: "snd ` set (init_node_count ls) \<subseteq> {0}"
proof -
  have "\<And>acc. snd ` set acc \<subseteq> {0} \<Longrightarrow>
      snd ` set (fold (\<lambda>(k, v) d. dict_setitem d k v) (map (\<lambda>l. (l, 0::int)) ls) acc) \<subseteq> {0}"
  proof (induction ls)
    case Nil
    then show ?case by simp
  next
    case (Cons l ls)
    have "set (AList.update l (0::int) acc) \<subseteq> insert (l, 0) (set acc)"
      by (induction acc) auto
    with Cons.prems have "snd ` set (dict_setitem acc l (0::int)) \<subseteq> {0}"
      by (fastforce simp: dict_setitem_def)
    from Cons.IH[OF this] show ?case by simp
  qed
  from this[of "[]"] show ?thesis by (simp add: init_node_count_def dict_of_items_def)
qed

lemma init_node_count_map_of:
  "map_of (init_node_count ls) l = (if l \<in> set ls then Some 0 else None)"
proof (cases "l \<in> set ls")
  case True
  then have "l \<in> fst ` set (init_node_count ls)" by (simp add: init_node_count_keys)
  then obtain v where v: "(l, v) \<in> set (init_node_count ls)" by auto
  then have "v \<in> snd ` set (init_node_count ls)" by force
  with init_node_count_values have "v = 0" by blast
  with v init_node_count_distinct True show ?thesis by simp
next
  case False
  then have "l \<notin> fst ` set (init_node_count ls)" by (simp add: init_node_count_keys)
  with False show ?thesis by (simp add: map_of_eq_None_iff)
qed

lemma sum_list_all_zero: "set xs \<subseteq> {0::int} \<Longrightarrow> sum_list xs = 0"
  by (induction xs) auto

lemma init_node_count_sum: "sum_list (map snd (init_node_count ls)) = 0"
  using init_node_count_values[of ls] by (intro sum_list_all_zero) simp

subsection \<open>Incrementing and the loop\<close>

lemma increment_Inr_iff:
  "increment nc k = Inr nc' \<longleftrightarrow> (\<exists>v. map_of nc k = Some v \<and> nc' = AList.update k (v + 1) nc)"
  by (auto simp: increment_def dict_getitem_def dict_setitem_def split: option.splits)

lemma increment_Inl_iff:
  "increment nc k = Inl err \<longleftrightarrow> (k \<notin> fst ` set nc \<and> err = KeyError k)"
proof (cases "map_of nc k")
  case None
  then have "k \<notin> fst ` set nc" by (simp add: map_of_eq_None_iff)
  with None show ?thesis by (auto simp: increment_def dict_getitem_def)
next
  case (Some v)
  then have "k \<in> fst ` set nc" by (metis map_of_eq_None_iff option.distinct(1))
  with Some show ?thesis by (auto simp: increment_def dict_getitem_def)
qed

lemma increment_tracked:
  "k \<in> fst ` set nc \<Longrightarrow> \<exists>nc'. increment nc k = Inr nc'"
  by (cases "increment nc k") (auto simp: increment_Inl_iff)

lemma increment_Inr_tracked: "increment nc k = Inr nc' \<Longrightarrow> k \<in> fst ` set nc"
  by (cases "k \<in> fst ` set nc") (use increment_Inl_iff[of nc k "KeyError k"] in auto)

lemma increment_keys: "increment nc k = Inr nc' \<Longrightarrow> map fst nc' = map fst nc"
  by (auto simp: increment_Inr_iff update_keys dest: map_of_SomeD) (metis fst_conv image_eqI map_of_SomeD)

lemma increment_map_of:
  "increment nc k = Inr nc' \<Longrightarrow>
     map_of nc' l = (if l = k then map_option (\<lambda>c. c + 1) (map_of nc k) else map_of nc l)"
  by (auto simp: increment_Inr_iff update_conv')

lemma sum_list_update:
  "distinct (map fst al) \<Longrightarrow> map_of al k = Some v \<Longrightarrow>
     sum_list (map snd (AList.update k w al)) = sum_list (map snd al) - v + (w::int)"
  by (induction al) (auto split: if_splits dest: map_of_SomeD simp: rev_image_eqI)

lemma increment_sum:
  "distinct (map fst nc) \<Longrightarrow> increment nc k = Inr nc' \<Longrightarrow>
     sum_list (map snd nc') = sum_list (map snd nc) + 1"
  by (auto simp: increment_Inr_iff sum_list_update)




lemma count_degrees_keys: "count_degrees es nc = Inr nc' \<Longrightarrow> map fst nc' = map fst nc"
proof (induction es arbitrary: nc)
  case Nil
  then show ?case by simp
next
  case (Cons e es)
  from Cons.prems obtain nc1 nc2 where
    s1: "increment nc (node1_label e) = Inr nc1" and
    s2: "increment nc1 (node2_label e) = Inr nc2" and
    s3: "count_degrees es nc2 = Inr nc'"
    by (auto split: sum.splits)
  from Cons.IH[OF s3] increment_keys[OF s2] increment_keys[OF s1] show ?case by simp
qed

lemma count_degrees_Inr_tracked:
  "count_degrees es nc = Inr nc' \<Longrightarrow> e \<in> set es \<Longrightarrow>
     node1_label e \<in> fst ` set nc \<and> node2_label e \<in> fst ` set nc"
proof (induction es arbitrary: nc)
  case Nil
  then show ?case by simp
next
  case (Cons x es)
  from Cons.prems(1) obtain nc1 nc2 where
    s1: "increment nc (node1_label x) = Inr nc1" and
    s2: "increment nc1 (node2_label x) = Inr nc2" and
    s3: "count_degrees es nc2 = Inr nc'"
    by (auto split: sum.splits)
  have k1: "map fst nc1 = map fst nc" by (rule increment_keys[OF s1])
  have k2: "map fst nc2 = map fst nc" using increment_keys[OF s2] k1 by simp
  have keys: "fst ` set nc1 = fst ` set nc" "fst ` set nc2 = fst ` set nc"
    using k1 k2 by (metis set_map)+
  show ?case
  proof (cases "e = x")
    case True
    from s1 have "node1_label x \<in> fst ` set nc" by (rule increment_Inr_tracked)
    moreover from s2 have "node2_label x \<in> fst ` set nc1" by (rule increment_Inr_tracked)
    ultimately show ?thesis using True keys by simp
  next
    case False
    with Cons.prems(2) have "e \<in> set es" by simp
    from Cons.IH[OF s3 this] keys show ?thesis by simp
  qed
qed

lemma count_degrees_Inl:
  "count_degrees es nc = Inl err \<Longrightarrow>
     \<exists>e k. e \<in> set es \<and> (k = node1_label e \<or> k = node2_label e) \<and> k \<notin> fst ` set nc \<and>
       err = KeyError k"
proof (induction es arbitrary: nc)
  case Nil
  then show ?case by simp
next
  case (Cons x es)
  show ?case
  proof (cases "increment nc (node1_label x)")
    case (Inl err1)
    with Cons.prems have "err = err1" by simp
    with Inl show ?thesis by (auto simp: increment_Inl_iff)
  next
    case (Inr nc1)
    have k1: "fst ` set nc1 = fst ` set nc" using increment_keys[OF Inr] by (metis set_map)
    show ?thesis
    proof (cases "increment nc1 (node2_label x)")
      case (Inl err2)
      with Inr Cons.prems have "err = err2" by simp
      with Inl k1 show ?thesis by (auto simp: increment_Inl_iff)
    next
      case nc2: (Inr nc2)
      have k2: "fst ` set nc2 = fst ` set nc" using increment_keys[OF nc2] k1 by (metis set_map)
      from Inr nc2 Cons.prems have "count_degrees es nc2 = Inl err" by simp
      from Cons.IH[OF this] k2 show ?thesis by auto
    qed
  qed
qed

lemma count_degrees_tracked:
  assumes "\<forall>e \<in> set es. node1_label e \<in> fst ` set nc \<and> node2_label e \<in> fst ` set nc"
  shows "\<exists>nc'. count_degrees es nc = Inr nc'"
proof (cases "count_degrees es nc")
  case (Inl err)
  from count_degrees_Inl[OF this] assms show ?thesis by auto
next
  case (Inr nc')
  then show ?thesis by simp
qed

lemma count_degrees_sum:
  "distinct (map fst nc) \<Longrightarrow> count_degrees es nc = Inr nc' \<Longrightarrow>
     sum_list (map snd nc') = sum_list (map snd nc) + 2 * int (length es)"
proof (induction es arbitrary: nc)
  case Nil
  then show ?case by simp
next
  case (Cons e es)
  from Cons.prems(2) obtain nc1 nc2 where
    s1: "increment nc (node1_label e) = Inr nc1" and
    s2: "increment nc1 (node2_label e) = Inr nc2" and
    s3: "count_degrees es nc2 = Inr nc'"
    by (auto split: sum.splits)
  have d1: "distinct (map fst nc1)" using increment_keys[OF s1] Cons.prems(1) by simp
  have d2: "distinct (map fst nc2)" using increment_keys[OF s2] d1 by simp
  from Cons.IH[OF d2 s3] increment_sum[OF d1 s2] increment_sum[OF Cons.prems(1) s1]
  show ?case by simp
qed

lemma count_degrees_map_of:
  "count_degrees es nc = Inr nc' \<Longrightarrow>
     map_of nc' l = map_option (\<lambda>c. c + int (endpoint_occurrences es l)) (map_of nc l)"
proof (induction es arbitrary: nc)
  case Nil
  then show ?case by (simp add: endpoint_occurrences_def option.map_ident)
next
  case (Cons e es)
  from Cons.prems obtain nc1 nc2 where
    s1: "increment nc (node1_label e) = Inr nc1" and
    s2: "increment nc1 (node2_label e) = Inr nc2" and
    s3: "count_degrees es nc2 = Inr nc'"
    by (auto split: sum.splits)
  have "map_of nc2 l =
      map_option (\<lambda>c. c + int (endpoint_occurrences [e] l)) (map_of nc l)"
    using increment_map_of[OF s1] increment_map_of[OF s2, of l]
    by (cases "map_of nc l")
      (auto simp: endpoint_occurrences_def option.map_comp comp_def)
  moreover have "endpoint_occurrences (e # es) l =
      endpoint_occurrences [e] l + endpoint_occurrences es l"
    by (simp add: endpoint_occurrences_def)
  ultimately show ?case
    using Cons.IH[OF s3] by (simp add: option.map_comp comp_def add.assoc)
qed

subsection \<open>The function as a whole\<close>

lemmas tdc_defs =
  temporal_degree_centrality_def raw_degree_counts_def restricted_graph_def working_labels_def
  init_node_count_def dict_of_items_def dict_setitem_def dict_getitem_def increment_def
  sorted_temporal_degree_def temporal_degree_binding_def normalized_degree_def
  normalization_factor_def true_div_def sorted_reverse_def

lemmas sub_defs =
  get_temporal_subgraph_def retained_def in_interval_def has_edge_def

lemma unnormalized_never_returns:
  "\<exists>err. temporal_degree_centrality sub g labels intervals False = Inl err"
  by (simp add: temporal_degree_centrality_def sorted_temporal_degree_def
      temporal_degree_binding_def split: sum.splits)

text \<open>
  Claim C1: with \<^verbatim>\<open>normalize=False\<close> the function is to return the raw counts, sorted by
  descending value; on the example scenario \<open>{B:2, A:1, C:1}\<close>. The source computes the
  raw counts \<open>{A:1, B:2, C:1}\<close> of the example and then raises
  \<^verbatim>\<open>UnboundLocalError\<close> on line 74, since \<^verbatim>\<open>temporal_degree\<close> is assigned only under
  \<^verbatim>\<open>if normalize:\<close>. This holds under either reading of the subgraph's node list.
\<close>

theorem example_scenario_unnormalized_raises:
  "raw_degree_counts (get_temporal_subgraph prune) example_graph None (Some [(0, 3)])
     = Inr [(''A'', 1), (''B'', 2), (''C'', 1)] \<and>
   temporal_degree_centrality (get_temporal_subgraph prune) example_graph None (Some [(0, 3)]) False
     = Inl (UnboundLocalError ''temporal_degree'')"
  by (cases prune) (simp_all add: tdc_defs sub_defs example_graph_def)

text \<open>
  Claim C2: an edge endpoint whose label is not in the working label set is to be skipped
  without an error, the tracked endpoint of the same edge still being counted. On the
  graph with nodes A, B and edges between them, called with \<^verbatim>\<open>labels=["A"]\<close>, the source
  raises \<^verbatim>\<open>KeyError('B')\<close> on line 66, whatever the normalize flag.
\<close>

theorem untracked_endpoint_raises_KeyError:
  "temporal_degree_centrality sub pair_graph (Some [''A'']) None normalize_flag
     = Inl (KeyError ''B'')"
  by (simp add: tdc_defs pair_graph_def)

text \<open>
  Claim C3 as stated: with \<^verbatim>\<open>normalize=True\<close>, a node count of at most 1 or a duration
  of zero always ends in an error. On the graph with no node and no edge the source
  divides nothing, since the dict of counts is empty, and returns the empty mapping.
\<close>

theorem empty_graph_returns_empty_counterexample:
  "nodes_count empty_graph \<le> 1 \<and>
   edges_end empty_graph - edges_start empty_graph = 0 \<and>
   edges_aslist empty_graph = [] \<and>
   temporal_degree_centrality (get_temporal_subgraph False) empty_graph None None True = Inr []"
  by (simp add: tdc_defs empty_graph_def)

text \<open>
  The same holds whatever the graph answers for its node count, start and end: with no
  label to score and no edge, a call with \<^verbatim>\<open>normalize=True\<close> returns the empty mapping.
\<close>

lemma no_labels_no_edges_returns_empty:
  assumes "nodes_labels g = []" and "edges_aslist g = []"
  shows "temporal_degree_centrality sub g None None True = Inr []"
  using assms by (simp add: tdc_defs)

text \<open>
  When the windows retain no edge of the example graph, the outcome depends on the node
  list of the subgraph: with the nodes pruned nothing is divided, with the nodes kept the
  first division raises.
\<close>

lemma empty_restriction_outcomes:
  "temporal_degree_centrality (get_temporal_subgraph True) example_graph None (Some [(10, 20)]) True
     = Inr [] \<and>
   temporal_degree_centrality (get_temporal_subgraph False) example_graph None (Some [(10, 20)]) True
     = Inl ZeroDivisionError"
  by (simp add: tdc_defs sub_defs example_graph_def)

lemma raw_degree_counts_unfold:
  "raw_degree_counts sub g labels intervals =
     count_degrees (edges_aslist (restricted_graph sub g intervals))
       (init_node_count (working_labels (restricted_graph sub g intervals) labels))"
  by (simp add: raw_degree_counts_def Let_def)

lemma raw_degree_counts_keys:
  assumes "raw_degree_counts sub g labels intervals = Inr nc"
  shows "distinct (map fst nc)"
    and "fst ` set nc = set (working_labels (restricted_graph sub g intervals) labels)"
proof -
  let ?L = "working_labels (restricted_graph sub g intervals) labels"
  from assms have "count_degrees (edges_aslist (restricted_graph sub g intervals))
      (init_node_count ?L) = Inr nc"
    by (simp add: raw_degree_counts_unfold)
  then have keys: "map fst nc = map fst (init_node_count ?L)" by (rule count_degrees_keys)
  then show "distinct (map fst nc)" by (simp add: init_node_count_distinct)
  from keys have "set (map fst nc) = set (map fst (init_node_count ?L))" by simp
  then show "fst ` set nc = set ?L" by (simp add: init_node_count_keys)
qed

lemma working_labels_node_labels:
  "working_labels graph (Some (nodes_labels graph)) = nodes_labels graph"
  by (simp add: working_labels_def)

text \<open>
  Claim C10: an empty list of labels is treated exactly like an omitted one, since line 56
  tests the list for truth: the working labels are then all node labels of the (possibly
  restricted) graph. For every graph, every intervals argument and either value of the
  normalize flag, the call with \<^verbatim>\<open>labels=[]\<close> returns what the call with
  \<^verbatim>\<open>labels=None\<close> returns, which is what the call returns that is given the node labels
  of the (possibly restricted) graph as its labels; the loop of both starts from a zero
  count for each of those node labels, and the labels of a returned result are those node
  labels.
\<close>

theorem labels_empty_list_defaults_to_node_labels:
  "temporal_degree_centrality sub g (Some []) intervals normalize_flag
     = temporal_degree_centrality sub g None intervals normalize_flag \<and>
   temporal_degree_centrality sub g (Some []) intervals normalize_flag
     = temporal_degree_centrality sub g
         (Some (nodes_labels (restricted_graph sub g intervals))) intervals normalize_flag \<and>
   working_labels (restricted_graph sub g intervals) (Some [])
     = nodes_labels (restricted_graph sub g intervals) \<and>
   working_labels (restricted_graph sub g intervals) None
     = nodes_labels (restricted_graph sub g intervals) \<and>
   raw_degree_counts sub g (Some []) intervals
     = count_degrees (edges_aslist (restricted_graph sub g intervals))
         (init_node_count (nodes_labels (restricted_graph sub g intervals))) \<and>
   raw_degree_counts sub g None intervals
     = count_degrees (edges_aslist (restricted_graph sub g intervals))
         (init_node_count (nodes_labels (restricted_graph sub g intervals))) \<and>
   (\<forall>result.
      temporal_degree_centrality sub g (Some []) intervals normalize_flag = Inr result \<longrightarrow>
      set (map fst result) = set (nodes_labels (restricted_graph sub g intervals)))"
proof -
  let ?G = "restricted_graph sub g intervals"
  have w1: "working_labels ?G (Some []) = nodes_labels ?G"
    and w2: "working_labels ?G None = nodes_labels ?G"
    by (simp_all add: working_labels_def)
  have r1: "raw_degree_counts sub g (Some []) intervals
      = count_degrees (edges_aslist ?G) (init_node_count (nodes_labels ?G))"
    by (simp add: raw_degree_counts_unfold w1)
  have r2: "raw_degree_counts sub g None intervals
      = count_degrees (edges_aslist ?G) (init_node_count (nodes_labels ?G))"
    by (simp add: raw_degree_counts_unfold w2)
  have r3: "raw_degree_counts sub g (Some (nodes_labels ?G)) intervals
      = count_degrees (edges_aslist ?G) (init_node_count (nodes_labels ?G))"
    by (simp add: raw_degree_counts_unfold working_labels_node_labels)
  have e1: "temporal_degree_centrality sub g (Some []) intervals normalize_flag
      = temporal_degree_centrality sub g None intervals normalize_flag"
    by (simp add: temporal_degree_centrality_def r1 r2)
  have e2: "temporal_degree_centrality sub g (Some []) intervals normalize_flag
      = temporal_degree_centrality sub g (Some (nodes_labels ?G)) intervals normalize_flag"
    by (simp add: temporal_degree_centrality_def r1 r3)
  have keys: "set (map fst result) = set (nodes_labels ?G)"
    if res: "temporal_degree_centrality sub g (Some []) intervals normalize_flag = Inr result"
    for result
  proof -
    from res obtain nc where
      raw: "raw_degree_counts sub g (Some []) intervals = Inr nc" and
      fin: "sorted_temporal_degree normalize_flag ?G nc = Inr result"
      by (auto simp: temporal_degree_centrality_def split: sum.splits)
    from fin obtain td where
      nd: "normalized_degree ?G nc = Inr td" and
      result: "result = dict_of_items (sorted_reverse td)"
      by (auto simp: sorted_temporal_degree_def temporal_degree_binding_def
          split: sum.splits option.splits if_splits)
    have d: "distinct (map fst nc)" by (rule raw_degree_counts_keys(1)[OF raw])
    from nd obtain qs where
      qs: "normalized_items (normalization_factor ?G) nc = Inr qs" and td: "td = dict_of_items qs"
      by (auto simp: normalized_degree_def split: sum.splits)
    have kq: "map fst qs = map fst nc" using qs
    proof (induction nc arbitrary: qs)
      case Nil
      then show ?case by simp
    next
      case (Cons x nc)
      then show ?case by (cases x) (auto split: sum.splits)
    qed
    with d have dq: "distinct (map fst qs)" by simp
    then have tdq: "td = qs" using td by (simp add: dict_of_items_distinct)
    have "distinct (map fst (sorted_reverse td))"
      using dq tdq by (simp add: sorted_reverse_def distinct_map)
    then have "result = sorted_reverse td" using result by (simp add: dict_of_items_distinct)
    then have "set (map fst result) = set (map fst qs)"
      using tdq by (simp add: sorted_reverse_def)
    also have "\<dots> = set (map fst nc)" by (simp only: kq)
    also have "\<dots> = set (nodes_labels ?G)"
      using raw_degree_counts_keys(2)[OF raw] w1 by simp
    finally show ?thesis .
  qed
  from e1 e2 w1 w2 r1 r2 keys show ?thesis by blast
qed

theorem labels_empty_list_defaults_to_node_labels_witness:
  "temporal_degree_centrality (get_temporal_subgraph True) path_graph (Some []) (Some [(0, 3)]) True
     = Inr [(''B'', 1), (''A'', 1 / 2), (''C'', 1 / 2)] \<and>
   temporal_degree_centrality (get_temporal_subgraph True) path_graph None (Some [(0, 3)]) True
     = Inr [(''B'', 1), (''A'', 1 / 2), (''C'', 1 / 2)] \<and>
   temporal_degree_centrality (get_temporal_subgraph True) path_graph
       (Some [''A'', ''B'', ''C'']) (Some [(0, 3)]) True
     = Inr [(''B'', 1), (''A'', 1 / 2), (''C'', 1 / 2)] \<and>
   nodes_labels (restricted_graph (get_temporal_subgraph True) path_graph (Some [(0, 3)]))
     = [''A'', ''B'', ''C''] \<and>
   nodes_labels path_graph = [''A'', ''B'', ''C'', ''D'']"
  using labels_empty_list_defaults_to_node_labels[of "get_temporal_subgraph True" path_graph
      "Some [(0, 3)]" True]
  by (simp add: tdc_defs sub_defs path_graph_def)

lemma untracked_endpoint_always_raises:
  assumes "e \<in> set (edges_aslist (restricted_graph sub g intervals))"
    and "node1_label e \<notin> set (working_labels (restricted_graph sub g intervals) labels) \<or>
         node2_label e \<notin> set (working_labels (restricted_graph sub g intervals) labels)"
  shows "\<exists>k. temporal_degree_centrality sub g labels intervals normalize_flag = Inl (KeyError k)"
proof (cases "raw_degree_counts sub g labels intervals")
  case (Inl err)
  then have "\<exists>k. err = KeyError k"
    unfolding raw_degree_counts_unfold by (blast dest: count_degrees_Inl)
  with Inl show ?thesis by (auto simp: temporal_degree_centrality_def)
next
  case (Inr nc)
  from count_degrees_Inr_tracked[OF Inr[unfolded raw_degree_counts_unfold] assms(1)] assms(2)
  show ?thesis by (simp add: init_node_count_keys)
qed

text \<open>
  Claim C4: when both endpoints of every edge of the (possibly restricted) graph are in the
  working label set, the loop ends without an exception, the dict of raw counts has each
  working label as a key exactly once, and its values add up to twice the number of edges
  of the (possibly restricted) graph.
\<close>

theorem raw_counts_conservation:
  assumes "\<forall>e \<in> set (edges_aslist (restricted_graph sub g intervals)).
      node1_label e \<in> set (working_labels (restricted_graph sub g intervals) labels) \<and>
      node2_label e \<in> set (working_labels (restricted_graph sub g intervals) labels)"
  shows "\<exists>nc. raw_degree_counts sub g labels intervals = Inr nc \<and>
      distinct (map fst nc) \<and>
      set (map fst nc) = set (working_labels (restricted_graph sub g intervals) labels) \<and>
      sum_list (map snd nc) = 2 * int (length (edges_aslist (restricted_graph sub g intervals)))"
proof -
  let ?G = "restricted_graph sub g intervals"
  let ?L = "working_labels ?G labels"
  from assms have "\<forall>e \<in> set (edges_aslist ?G).
      node1_label e \<in> fst ` set (init_node_count ?L) \<and>
      node2_label e \<in> fst ` set (init_node_count ?L)"
    by (simp add: init_node_count_keys)
  then obtain nc where run: "count_degrees (edges_aslist ?G) (init_node_count ?L) = Inr nc"
    using count_degrees_tracked by blast
  then have raw: "raw_degree_counts sub g labels intervals = Inr nc"
    by (simp add: raw_degree_counts_unfold)
  have "sum_list (map snd nc) = 2 * int (length (edges_aslist ?G))"
    using count_degrees_sum[OF init_node_count_distinct run] by (simp add: init_node_count_sum)
  with raw raw_degree_counts_keys[OF raw] show ?thesis by simp
qed

theorem raw_counts_conservation_witness:
  "list_all
     (\<lambda>e. node1_label e \<in> set (nodes_labels example_graph) \<and>
          node2_label e \<in> set (nodes_labels example_graph))
     (edges_aslist example_graph) \<and>
   raw_degree_counts (get_temporal_subgraph False) example_graph None None
     = Inr [(''A'', 2), (''B'', 2), (''C'', 2)] \<and>
   sum_list (map snd [(''A'', 2::int), (''B'', 2), (''C'', 2)])
     = 2 * int (length (edges_aslist example_graph))"
  using raw_counts_conservation[of "get_temporal_subgraph False" example_graph None None]
  by (simp add: tdc_defs example_graph_def)

subsection \<open>Normalisation\<close>

lemma normalized_items_zero:
  "items \<noteq> [] \<Longrightarrow> normalized_items 0 items = Inl ZeroDivisionError"
  by (cases items) (auto simp: true_div_def)

lemma normalized_items_Inr:
  "normalized_items nf items = Inr qs \<Longrightarrow>
     qs = map (\<lambda>(l, v). (l, of_int v / of_int nf)) items \<and> (items \<noteq> [] \<longrightarrow> nf \<noteq> 0)"
proof (induction items arbitrary: qs)
  case Nil
  then show ?case by simp
next
  case (Cons x items)
  obtain l v where x: "x = (l, v)" by (cases x)
  from Cons.prems obtain rest where
    nz: "nf \<noteq> 0" and rest: "normalized_items nf items = Inr rest" and
    qs: "qs = (l, of_int v / of_int nf) # rest"
    by (auto simp: x true_div_def split: if_splits sum.splits)
  from Cons.IH[OF rest] nz qs show ?case by (simp add: x)
qed

lemma normalized_items_keys:
  "normalized_items nf items = Inr qs \<Longrightarrow> map fst qs = map fst items"
  by (drule normalized_items_Inr) (auto simp: case_prod_unfold comp_def)

lemma normalized_degree_Inr:
  assumes "normalized_degree G nc = Inr td" and "distinct (map fst nc)"
  shows "td = map (\<lambda>(l, v). (l, of_int v / of_int (normalization_factor G))) nc"
    and "nc \<noteq> [] \<longrightarrow> normalization_factor G \<noteq> 0"
proof -
  from assms(1) obtain qs where
    qs: "normalized_items (normalization_factor G) nc = Inr qs" and td: "td = dict_of_items qs"
    by (auto simp: normalized_degree_def split: sum.splits)
  from normalized_items_keys[OF qs] assms(2) have "distinct (map fst qs)" by simp
  then have "td = qs" using td by (simp add: dict_of_items_distinct)
  with normalized_items_Inr[OF qs]
  show "td = map (\<lambda>(l, v). (l, of_int v / of_int (normalization_factor G))) nc"
    and "nc \<noteq> [] \<longrightarrow> normalization_factor G \<noteq> 0" by simp_all
qed

lemma temporal_degree_centrality_True:
  "temporal_degree_centrality sub g labels intervals True =
     (case presort_temporal_degree sub g labels intervals of
        Inl err \<Rightarrow> Inl err
      | Inr td \<Rightarrow> Inr (dict_of_items (sorted_reverse td)))"
  by (simp add: temporal_degree_centrality_def presort_temporal_degree_def
      sorted_temporal_degree_def temporal_degree_binding_def split: sum.splits)

lemma temporal_degree_centrality_Inr:
  assumes "temporal_degree_centrality sub g labels intervals normalize_flag = Inr result"
  shows "normalize_flag"
    and "\<exists>td. presort_temporal_degree sub g labels intervals = Inr td \<and>
           result = dict_of_items (sorted_reverse td)"
proof -
  show nf: "normalize_flag"
    using assms unnormalized_never_returns[of sub g labels intervals] by (cases normalize_flag) auto
  with assms show "\<exists>td. presort_temporal_degree sub g labels intervals = Inr td \<and>
           result = dict_of_items (sorted_reverse td)"
    by (auto simp: temporal_degree_centrality_True split: sum.splits)
qed

text \<open>
  Claim C3 as amended: with \<^verbatim>\<open>normalize=True\<close>, when the normalisation factor of the
  (possibly restricted) graph is zero and the working label set is not empty, the function
  returns no result: it raises the \<^verbatim>\<open>KeyError\<close> of the loop if the loop raises one, and
  \<^verbatim>\<open>ZeroDivisionError\<close> otherwise.
\<close>

theorem zero_factor_raises:
  assumes "normalization_factor (restricted_graph sub g intervals) = 0"
    and "working_labels (restricted_graph sub g intervals) labels \<noteq> []"
  shows "temporal_degree_centrality sub g labels intervals True =
     (case raw_degree_counts sub g labels intervals of
        Inl err \<Rightarrow> Inl err
      | Inr node_count \<Rightarrow> Inl ZeroDivisionError)"
proof (cases "raw_degree_counts sub g labels intervals")
  case (Inl err)
  then show ?thesis
    by (simp add: temporal_degree_centrality_True presort_temporal_degree_def)
next
  case (Inr nc)
  from raw_degree_counts_keys(2)[OF Inr] assms(2) have "nc \<noteq> []" by auto
  then have "normalized_items 0 nc = Inl ZeroDivisionError" by (rule normalized_items_zero)
  with Inr assms(1) show ?thesis
    by (simp add: temporal_degree_centrality_True presort_temporal_degree_def normalized_degree_def)
qed

theorem zero_factor_raises_witness:
  "normalization_factor (restricted_graph (get_temporal_subgraph False) example_graph (Some [(1, 2)])) = 0 \<and>
   working_labels (restricted_graph (get_temporal_subgraph False) example_graph (Some [(1, 2)])) None \<noteq> [] \<and>
   temporal_degree_centrality (get_temporal_subgraph False) example_graph None (Some [(1, 2)]) True
     = Inl ZeroDivisionError"
  using zero_factor_raises[of "get_temporal_subgraph False" example_graph "Some [(1, 2)]" None]
  by (simp add: tdc_defs sub_defs example_graph_def)

subsection \<open>Sorting\<close>

lemma distinct_keys_sort_key:
  "distinct (map fst (sort_key f xs)) = distinct (map fst xs)"
  by (simp add: distinct_map)

lemma sorted_reverse_keys_distinct:
  "distinct (map fst td) \<Longrightarrow> distinct (map fst (sorted_reverse td))"
  by (simp add: sorted_reverse_def distinct_map)

lemma sorted_reverse_set: "set (sorted_reverse td) = set td"
  by (simp add: sorted_reverse_def)

lemma sorted_reverse_descending:
  "sorted_wrt (\<lambda>p q. snd q \<le> snd p) (sorted_reverse td)"
proof -
  have "sorted (map snd (sort_key snd (rev td)))" by (rule sorted_sort_key)
  then have "sorted_wrt (\<lambda>p q. snd p \<le> snd q) (sort_key snd (rev td))"
    by (simp add: sorted_wrt_map)
  then show ?thesis by (simp add: sorted_reverse_def sorted_wrt_rev)
qed

lemma sorted_reverse_stable:
  "filter (\<lambda>p. snd p = v) (sorted_reverse td) = filter (\<lambda>p. snd p = v) td"
  by (simp add: sorted_reverse_def rev_filter[symmetric] sort_key_stable)

lemma presort_temporal_degree_Inr:
  assumes "presort_temporal_degree sub g labels intervals = Inr td"
  shows "\<exists>nc. raw_degree_counts sub g labels intervals = Inr nc \<and> distinct (map fst nc) \<and>
      td = map (\<lambda>(l, v). (l, of_int v / of_int (normalization_factor (restricted_graph sub g intervals)))) nc \<and>
      (nc \<noteq> [] \<longrightarrow> normalization_factor (restricted_graph sub g intervals) \<noteq> 0)"
proof -
  from assms obtain nc where
    raw: "raw_degree_counts sub g labels intervals = Inr nc" and
    nd: "normalized_degree (restricted_graph sub g intervals) nc = Inr td"
    by (auto simp: presort_temporal_degree_def split: sum.splits)
  have d: "distinct (map fst nc)" by (rule raw_degree_counts_keys(1)[OF raw])
  from raw d normalized_degree_Inr[OF nd d] show ?thesis by blast
qed

lemma presort_temporal_degree_distinct:
  assumes "presort_temporal_degree sub g labels intervals = Inr td"
  shows "distinct (map fst td)"
proof -
  from presort_temporal_degree_Inr[OF assms] obtain nc where
    "distinct (map fst nc)" and
    "td = map (\<lambda>(l, v). (l, of_int v / of_int (normalization_factor (restricted_graph sub g intervals)))) nc"
    by blast
  then show ?thesis by (simp add: case_prod_unfold comp_def)
qed

text \<open>
  Claim C5: whenever the function returns a result, the items of the result are in
  non-increasing order of score, and for every score the items with that score stand in the
  result in the order they have in the dict before the sort; the result has the items of
  that dict and no others.
\<close>

theorem result_sorted_descending_stable:
  assumes "temporal_degree_centrality sub g labels intervals normalize_flag = Inr result"
  shows "\<exists>td. presort_temporal_degree sub g labels intervals = Inr td \<and>
      sorted_wrt (\<lambda>p q. snd q \<le> snd p) result \<and>
      (\<forall>v. filter (\<lambda>p. snd p = v) result = filter (\<lambda>p. snd p = v) td) \<and>
      set result = set td \<and> length result = length td"
proof -
  from temporal_degree_centrality_Inr(2)[OF assms] obtain td where
    td: "presort_temporal_degree sub g labels intervals = Inr td" and
    res: "result = dict_of_items (sorted_reverse td)"
    by blast
  have "distinct (map fst (sorted_reverse td))"
    using presort_temporal_degree_distinct[OF td] by (rule sorted_reverse_keys_distinct)
  with res have "result = sorted_reverse td" by (simp add: dict_of_items_distinct)
  with td show ?thesis
    by (simp add: sorted_reverse_descending sorted_reverse_stable sorted_reverse_set)
      (simp add: sorted_reverse_def)
qed

theorem result_sorted_descending_stable_witness:
  "temporal_degree_centrality (get_temporal_subgraph True) example_graph None (Some [(0, 3)]) True
     = Inr [(''B'', 1), (''A'', 1 / 2), (''C'', 1 / 2)] \<and>
   presort_temporal_degree (get_temporal_subgraph True) example_graph None (Some [(0, 3)])
     = Inr [(''A'', 1 / 2), (''B'', 1), (''C'', 1 / 2)] \<and>
   sorted_wrt (\<lambda>p q. snd q \<le> snd p) [(''B'', 1::rat), (''A'', 1 / 2), (''C'', 1 / 2)] \<and>
   filter (\<lambda>p. snd p = 1 / 2) [(''B'', 1::rat), (''A'', 1 / 2), (''C'', 1 / 2)]
     = filter (\<lambda>p. snd p = 1 / 2) [(''A'', 1 / 2), (''B'', 1::rat), (''C'', 1 / 2)]"
  using result_sorted_descending_stable[of "get_temporal_subgraph True" example_graph None
      "Some [(0, 3)]" True "[(''B'', 1), (''A'', 1 / 2), (''C'', 1 / 2)]"]
  by (simp add: tdc_defs sub_defs presort_temporal_degree_def example_graph_def)

text \<open>
  Claim C7: when \<^verbatim>\<open>normalize=True\<close> and the function returns a result, the score of every
  label of the result is its raw count divided by
  \<open>(nodes.count() - 1) * (edges.end() - edges.start())\<close>, all three read off the
  restricted graph; the labels of the result are those of the raw counts, and the divisor
  is not zero unless the result is empty.
\<close>

theorem normalized_score_formula:
  assumes "temporal_degree_centrality sub g labels intervals True = Inr result"
  shows "\<exists>nc. raw_degree_counts sub g labels intervals = Inr nc \<and>
      (\<forall>l. map_of result l =
         map_option
           (\<lambda>c. of_int c /
              of_int ((nodes_count (restricted_graph sub g intervals) - 1) *
                (edges_end (restricted_graph sub g intervals) -
                 edges_start (restricted_graph sub g intervals))))
           (map_of nc l)) \<and>
      (result \<noteq> [] \<longrightarrow>
         (nodes_count (restricted_graph sub g intervals) - 1) *
           (edges_end (restricted_graph sub g intervals) -
            edges_start (restricted_graph sub g intervals)) \<noteq> 0)"
proof -
  let ?G = "restricted_graph sub g intervals"
  let ?f = "\<lambda>c. (of_int c :: rat) / of_int (normalization_factor ?G)"
  from temporal_degree_centrality_Inr(2)[OF assms] obtain td where
    td: "presort_temporal_degree sub g labels intervals = Inr td" and
    res: "result = dict_of_items (sorted_reverse td)"
    by blast
  have dtd: "distinct (map fst td)" by (rule presort_temporal_degree_distinct[OF td])
  then have dres: "distinct (map fst (sorted_reverse td))" by (rule sorted_reverse_keys_distinct)
  with res have result: "result = sorted_reverse td" by (simp add: dict_of_items_distinct)
  from presort_temporal_degree_Inr[OF td] obtain nc where
    raw: "raw_degree_counts sub g labels intervals = Inr nc" and
    tdeq: "td = map (\<lambda>(l, v). (l, ?f v)) nc" and
    nz: "nc \<noteq> [] \<longrightarrow> normalization_factor ?G \<noteq> 0"
    by blast
  have "map_of result = map_of td"
    using dres dtd result by (simp add: map_of_inject_set sorted_reverse_set)
  also have "\<dots> = map_option ?f \<circ> map_of nc"
    unfolding tdeq by (rule map_of_map)
  finally have scores: "\<forall>l. map_of result l = map_option ?f (map_of nc l)" by simp
  have "result \<noteq> [] \<longrightarrow> nc \<noteq> []"
    using result tdeq sorted_reverse_set[of td] by auto
  with nz have "result \<noteq> [] \<longrightarrow> normalization_factor ?G \<noteq> 0" by blast
  with raw scores show ?thesis
    unfolding normalization_factor_def by blast
qed

theorem normalized_score_formula_witness:
  "temporal_degree_centrality (get_temporal_subgraph False) example_graph None (Some [(0, 3)]) True
     = Inr [(''B'', 1), (''A'', 1 / 2), (''C'', 1 / 2)] \<and>
   raw_degree_counts (get_temporal_subgraph False) example_graph None (Some [(0, 3)])
     = Inr [(''A'', 1), (''B'', 2), (''C'', 1)] \<and>
   (nodes_count (restricted_graph (get_temporal_subgraph False) example_graph (Some [(0, 3)])) - 1) *
     (edges_end (restricted_graph (get_temporal_subgraph False) example_graph (Some [(0, 3)])) -
      edges_start (restricted_graph (get_temporal_subgraph False) example_graph (Some [(0, 3)]))) = 2 \<and>
   (nodes_count example_graph - 1) * (edges_end example_graph - edges_start example_graph) = 4"
  using normalized_score_formula[of "get_temporal_subgraph False" example_graph None
      "Some [(0, 3)]" "[(''B'', 1), (''A'', 1 / 2), (''C'', 1 / 2)]"]
  by (simp add: tdc_defs sub_defs example_graph_def)

subsection \<open>Interval restriction\<close>

lemma raw_degree_counts_map_of:
  assumes "raw_degree_counts sub g labels intervals = Inr nc"
  shows "map_of nc l =
     (if l \<in> set (working_labels (restricted_graph sub g intervals) labels)
      then Some (int (endpoint_occurrences (edges_aslist (restricted_graph sub g intervals)) l))
      else None)"
  using count_degrees_map_of[OF assms[unfolded raw_degree_counts_unfold], of l]
  by (simp add: init_node_count_map_of)

lemma endpoint_occurrences_filter:
  "endpoint_occurrences (filter P es) l \<le> endpoint_occurrences es l"
proof -
  have "length (filter Q (filter P es)) \<le> length (filter Q es)" for Q
    by (induction es) (auto intro: le_SucI)
  then show ?thesis unfolding endpoint_occurrences_def by (intro add_mono) 
qed

lemma restricted_edges_filter:
  "\<exists>P. edges_aslist (restricted_graph (get_temporal_subgraph prune) g intervals)
     = filter P (edges_aslist g)"
proof (cases "restricted_graph (get_temporal_subgraph prune) g intervals = g")
  case True
  then have "edges_aslist (restricted_graph (get_temporal_subgraph prune) g intervals)
     = filter (\<lambda>e. True) (edges_aslist g)" by simp
  then show ?thesis by blast
next
  case False
  then obtain ivs where "restricted_graph (get_temporal_subgraph prune) g intervals
      = get_temporal_subgraph prune g ivs"
    by (auto simp: restricted_graph_def split: option.splits if_splits)
  then have "edges_aslist (restricted_graph (get_temporal_subgraph prune) g intervals)
     = filter (retained ivs) (edges_aslist g)"
    by (simp add: get_temporal_subgraph_def Let_def)
  then show ?thesis by blast
qed

text \<open>
  Claim C6: for every graph, label and intervals argument, when the raw counts are computed
  both on the interval-restricted graph and on the unrestricted graph and both track the
  label, the restricted count is at most the unrestricted one. This holds under either
  reading of the subgraph's node list.
\<close>

theorem restriction_never_increases_count:
  assumes "raw_degree_counts (get_temporal_subgraph prune) g labels intervals = Inr nc'"
    and "raw_degree_counts (get_temporal_subgraph prune) g labels None = Inr nc"
    and "map_of nc' l = Some c'"
    and "map_of nc l = Some c"
  shows "c' \<le> c"
proof -
  obtain P where P: "edges_aslist (restricted_graph (get_temporal_subgraph prune) g intervals)
     = filter P (edges_aslist g)"
    using restricted_edges_filter by blast
  from assms(3) raw_degree_counts_map_of[OF assms(1), of l]
  have c': "c' = int (endpoint_occurrences (filter P (edges_aslist g)) l)"
    by (simp add: P split: if_splits)
  from assms(4) raw_degree_counts_map_of[OF assms(2), of l]
  have c: "c = int (endpoint_occurrences (edges_aslist g) l)"
    by (simp add: restricted_graph_def split: if_splits)
  from c c' endpoint_occurrences_filter[of P "edges_aslist g" l] show ?thesis by simp
qed

theorem restriction_never_increases_count_witness:
  "raw_degree_counts (get_temporal_subgraph True) pair_graph None (Some [(0, 2)])
     = Inr [(''A'', 1), (''B'', 1)] \<and>
   raw_degree_counts (get_temporal_subgraph True) pair_graph None None
     = Inr [(''A'', 2), (''B'', 2)] \<and>
   map_of [(''A'', 1::int), (''B'', 1)] ''B'' = Some 1 \<and>
   map_of [(''A'', 2::int), (''B'', 2)] ''B'' = Some 2 \<and>
   (1::int) \<le> 2"
  using restriction_never_increases_count[of True pair_graph None "Some [(0, 2)]"
      "[(''A'', 1), (''B'', 1)]" "[(''A'', 2), (''B'', 2)]" "''B''" 1 2]
  by (simp add: tdc_defs sub_defs pair_graph_def)

subsection \<open>The heap\<close>

lemma alloc_prefix: "prefix h (fst (alloc h ob))"
  by (simp add: alloc_def)

lemma alloc_fresh: "snd (alloc h ob) = length h"
  by (simp add: alloc_def)

lemma alloc_get: "heap_get (fst (alloc h ob)) (length h) = Some ob"
  by (simp add: alloc_def heap_get_def)

lemma prefix_heap_get: "prefix h h' \<Longrightarrow> a < length h \<Longrightarrow> heap_get h' a = heap_get h a"
  by (auto simp: heap_get_def prefix_def nth_append)

lemma prefix_list_update: "prefix h h' \<Longrightarrow> length h \<le> a \<Longrightarrow> prefix h (h'[a := ob])"
  by (auto simp: prefix_def list_update_append)

lemma heap_get_update:
  "a < length h \<Longrightarrow> heap_get (h[a := ob]) a = Some ob"
  by (simp add: heap_get_def)

lemma counts_at_valid: "counts_at h a = Some nc \<Longrightarrow> a < length h \<and> h ! a = CountsObj nc"
  by (auto simp: counts_at_def heap_get_def split: if_splits option.splits obj.splits)

lemma counts_at_self: "counts_at h a = Some nc \<Longrightarrow> h[a := CountsObj nc] = h"
  using counts_at_valid[of h a nc] list_update_id[of h a] by simp

lemma increment_at_refines:
  assumes "counts_at h a = Some nc"
  shows "increment_at h a k =
     Some (case increment nc k of
             Inl err \<Rightarrow> (h, Inl err)
           | Inr nc' \<Rightarrow> (h[a := CountsObj nc'], Inr ()))"
  using assms by (simp add: increment_at_def increment_def split: sum.splits)

lemma count_degrees_at_refines:
  assumes "counts_at h a = Some nc"
  shows "\<exists>h' nc''. count_degrees_at es a h =
        Some (h', case count_degrees es nc of Inl err \<Rightarrow> Inl err | Inr _ \<Rightarrow> Inr ()) \<and>
      h' = h[a := CountsObj nc''] \<and>
      (\<forall>nc'. count_degrees es nc = Inr nc' \<longrightarrow> nc'' = nc')"
  using assms
proof (induction es arbitrary: h nc)
  case Nil
  from counts_at_self[OF Nil] have "h = h[a := CountsObj nc]" by simp
  then show ?case by auto
next
  case (Cons e es)
  from counts_at_valid[OF Cons.prems] have a: "a < length h" by simp
  note i1 = increment_at_refines[OF Cons.prems, of "node1_label e"]
  show ?case
  proof (cases "increment nc (node1_label e)")
    case (Inl err)
    from counts_at_self[OF Cons.prems] have "h = h[a := CountsObj nc]" by simp
    with Inl i1 show ?thesis by auto
  next
    case (Inr nc1)
    let ?h1 = "h[a := CountsObj nc1]"
    have c1: "counts_at ?h1 a = Some nc1" using a by (simp add: counts_at_def heap_get_def)
    note i2 = increment_at_refines[OF c1, of "node2_label e"]
    show ?thesis
    proof (cases "increment nc1 (node2_label e)")
      case (Inl err)
      with Inr i1 i2 show ?thesis by auto
    next
      case nc2: (Inr nc2)
      let ?h2 = "h[a := CountsObj nc2]"
      have c2: "counts_at ?h2 a = Some nc2" using a by (simp add: counts_at_def heap_get_def)
      from Cons.IH[OF c2] obtain h' nc'' where
        run: "count_degrees_at es a ?h2 =
          Some (h', case count_degrees es nc2 of Inl err \<Rightarrow> Inl err | Inr _ \<Rightarrow> Inr ())" and
        h': "h' = ?h2[a := CountsObj nc'']" and
        fin: "\<forall>nc'. count_degrees es nc2 = Inr nc' \<longrightarrow> nc'' = nc'"
        by blast
      from h' have "h' = h[a := CountsObj nc'']" by simp
      with run fin Inr nc2 i1 i2 show ?thesis by (auto split: sum.splits)
    qed
  qed
qed

lemma sorted_temporal_degree_at_refines:
  assumes "counts_at h a = Some nc"
  shows "\<exists>h' r. sorted_temporal_degree_at h G a normalize_flag = Some (h', r) \<and> prefix h h' \<and>
      outcome h' r = returned (sorted_temporal_degree normalize_flag G nc) \<and>
      (\<forall>b. r = Inr b \<longrightarrow> length h \<le> b)"
proof (cases "normalize_flag")
  case False
  with assms show ?thesis
    by (simp add: sorted_temporal_degree_at_def sorted_temporal_degree_def
        temporal_degree_binding_def outcome_def returned_def)
next
  case True
  show ?thesis
  proof (cases "normalized_degree G nc")
    case (Inl err)
    with True assms show ?thesis
      by (simp add: sorted_temporal_degree_at_def sorted_temporal_degree_def
          temporal_degree_binding_def outcome_def returned_def)
  next
    case (Inr td)
    let ?res = "dict_of_items (sorted_reverse td)"
    let ?h' = "h @ [ScoresObj td, ScoresObj ?res]"
    from True Inr assms
    have "sorted_temporal_degree_at h G a normalize_flag = Some (?h', Inr (Suc (length h)))"
      by (simp add: sorted_temporal_degree_at_def alloc_def)
    moreover have "scores_at ?h' (Suc (length h)) = Some ?res"
      by (simp add: scores_at_def heap_get_def nth_append)
    ultimately show ?thesis
      using True Inr
      by (simp add: sorted_temporal_degree_def temporal_degree_binding_def outcome_def
          returned_def)
  qed
qed

lemma rebind_graph_refines:
  "snd (rebind_graph sub h g intervals) = restricted_graph sub g intervals \<and>
   prefix h (fst (rebind_graph sub h g intervals))"
  by (simp add: rebind_graph_def restricted_graph_def alloc_def split: option.splits)

lemma rebind_labels_refines:
  "snd (rebind_labels h graph labels) = working_labels graph labels \<and>
   prefix h (fst (rebind_labels h graph labels))"
  by (simp add: rebind_labels_def working_labels_def alloc_def split: option.splits)

lemma temporal_degree_centrality_at_refines:
  assumes "graph_at h graph_ref = Some g" and "labels_argument h labels_ref = Some labels"
  shows "\<exists>h' r.
      temporal_degree_centrality_at sub h graph_ref labels_ref intervals normalize_flag
        = Some (h', r) \<and>
      prefix h h' \<and>
      outcome h' r = returned (temporal_degree_centrality sub g labels intervals normalize_flag) \<and>
      (\<forall>a. r = Inr a \<longrightarrow> length h \<le> a)"
proof -
  let ?G = "restricted_graph sub g intervals"
  let ?L = "working_labels ?G labels"
  obtain h1 where h1: "rebind_graph sub h g intervals = (h1, ?G)" and p1: "prefix h h1"
    using rebind_graph_refines[of sub h g intervals]
    by (cases "rebind_graph sub h g intervals") auto
  obtain h2 where h2: "rebind_labels h1 ?G labels = (h2, ?L)" and p2: "prefix h1 h2"
    using rebind_labels_refines[of h1 ?G labels]
    by (cases "rebind_labels h1 ?G labels") auto
  let ?nc0 = "init_node_count ?L"
  let ?a = "length h2"
  let ?h3 = "h2 @ [CountsObj ?nc0]"
  have len: "length h \<le> ?a" using p1 p2 by (meson prefix_length_le le_trans)
  have p3: "prefix h h2" using p1 p2 by (rule prefix_order.trans)
  have c3: "counts_at ?h3 ?a = Some ?nc0" by (simp add: counts_at_def heap_get_def)
  from count_degrees_at_refines[OF c3, of "edges_aslist ?G"] obtain h4 nc'' where
    run: "count_degrees_at (edges_aslist ?G) ?a ?h3 =
        Some (h4, case count_degrees (edges_aslist ?G) ?nc0 of
                    Inl err \<Rightarrow> Inl err | Inr _ \<Rightarrow> Inr ())" and
    h4: "h4 = ?h3[?a := CountsObj nc'']" and
    fin: "\<forall>nc'. count_degrees (edges_aslist ?G) ?nc0 = Inr nc' \<longrightarrow> nc'' = nc'"
    by blast
  have h4': "h4 = h2 @ [CountsObj nc'']" using h4 by simp
  have p4: "prefix h h4" using p3 h4' by (simp add: prefix_prefix)
  have start: "temporal_degree_centrality_at sub h graph_ref labels_ref intervals normalize_flag =
      (case count_degrees_at (edges_aslist ?G) ?a ?h3 of
         None \<Rightarrow> None
       | Some (h4, Inl err) \<Rightarrow> Some (h4, Inl err)
       | Some (h4, Inr _) \<Rightarrow> sorted_temporal_degree_at h4 ?G ?a normalize_flag)"
    using assms h1 h2 by (simp add: temporal_degree_centrality_at_def alloc_def)
  show ?thesis
  proof (cases "count_degrees (edges_aslist ?G) ?nc0")
    case (Inl err)
    with start run p4 show ?thesis
      by (simp add: temporal_degree_centrality_def raw_degree_counts_unfold outcome_def
          returned_def)
  next
    case (Inr nc')
    with fin have "nc'' = nc'" by simp
    with h4' have c4: "counts_at h4 ?a = Some nc'" by (simp add: counts_at_def heap_get_def)
    from sorted_temporal_degree_at_refines[OF c4, of ?G normalize_flag] obtain h' r where
      fin_run: "sorted_temporal_degree_at h4 ?G ?a normalize_flag = Some (h', r)" and
      p5: "prefix h4 h'" and
      out: "outcome h' r = returned (sorted_temporal_degree normalize_flag ?G nc')" and
      fresh: "\<forall>b. r = Inr b \<longrightarrow> length h4 \<le> b"
      by blast
    have "prefix h h'" using p4 p5 by (rule prefix_order.trans)
    moreover have "\<forall>b. r = Inr b \<longrightarrow> length h \<le> b"
      using fresh len h4' by auto
    ultimately show ?thesis
      using start run Inr fin_run out
      by (simp add: temporal_degree_centrality_def raw_degree_counts_unfold)
  qed
qed

lemma prefix_graph_at: "prefix h h' \<Longrightarrow> graph_at h a = Some g \<Longrightarrow> graph_at h' a = Some g"
  using prefix_heap_get[of h h' a]
  by (cases "a < length h") (auto simp: graph_at_def heap_get_def)

lemma prefix_list_at: "prefix h h' \<Longrightarrow> list_at h a = Some ls \<Longrightarrow> list_at h' a = Some ls"
  using prefix_heap_get[of h h' a]
  by (cases "a < length h") (auto simp: list_at_def heap_get_def)

lemma prefix_scores_at: "prefix h h' \<Longrightarrow> scores_at h a = Some d \<Longrightarrow> scores_at h' a = Some d"
  using prefix_heap_get[of h h' a]
  by (cases "a < length h") (auto simp: scores_at_def heap_get_def)

lemma prefix_labels_argument:
  assumes p: "prefix h h'" and l: "labels_argument h labels_ref = Some labels"
  shows "labels_argument h' labels_ref = Some labels"
proof (cases labels_ref)
  case None
  with l show ?thesis by (simp add: labels_argument_def)
next
  case (Some a)
  with l obtain ls where ls: "list_at h a = Some ls" and labels: "labels = Some ls"
    by (auto simp: labels_argument_def split: option.splits)
  from prefix_list_at[OF p ls] Some labels show ?thesis by (simp add: labels_argument_def)
qed

text \<open>
  Claim C9: the function changes nothing in the input graph and returns a new dict. On
  every path, the paths that end in an exception among them, every object that was in the
  heap before the call is still there unchanged, so the graph and the list of labels are;
  the call ends either with an exception and no address, or with an address that did not
  exist before the call and holds the complete ranked mapping, the value of the function.
\<close>

theorem inputs_unchanged_result_fresh:
  assumes "graph_at h graph_ref = Some g" and "labels_argument h labels_ref = Some labels"
  shows "\<exists>h' r.
      temporal_degree_centrality_at sub h graph_ref labels_ref intervals normalize_flag
        = Some (h', r) \<and>
      prefix h h' \<and>
      graph_at h' graph_ref = Some g \<and>
      labels_argument h' labels_ref = Some labels \<and>
      outcome h' r = returned (temporal_degree_centrality sub g labels intervals normalize_flag) \<and>
      (\<forall>a. r = Inr a \<longrightarrow> length h \<le> a)"
proof -
  from temporal_degree_centrality_at_refines[OF assms, of sub intervals normalize_flag]
  obtain h' r where
    run: "temporal_degree_centrality_at sub h graph_ref labels_ref intervals normalize_flag
        = Some (h', r)" and
    p: "prefix h h'" and
    rest: "outcome h' r = returned (temporal_degree_centrality sub g labels intervals normalize_flag)"
      "\<forall>a. r = Inr a \<longrightarrow> length h \<le> a"
    by blast
  from prefix_graph_at[OF p assms(1)] prefix_labels_argument[OF p assms(2)] run p rest
  show ?thesis by blast
qed

theorem inputs_unchanged_result_fresh_witness:
  "graph_at example_heap 1 = Some pair_graph \<and>
   labels_argument example_heap (Some 0) = Some (Some [''B'', ''A'']) \<and>
   temporal_degree_centrality_at (get_temporal_subgraph True) example_heap 1 (Some 0) None True
     = Some (example_heap @
               [CountsObj [(''B'', 2), (''A'', 2)],
                ScoresObj [(''B'', 2 / 3), (''A'', 2 / 3)],
                ScoresObj [(''B'', 2 / 3), (''A'', 2 / 3)]],
             Inr 4) \<and>
   temporal_degree_centrality (get_temporal_subgraph True) pair_graph (Some [''B'', ''A'']) None True
     = Inr [(''B'', 2 / 3), (''A'', 2 / 3)] \<and>
   length example_heap \<le> 4"
  using inputs_unchanged_result_fresh[of example_heap 1 pair_graph "Some 0" "Some [''B'', ''A'']"
      "get_temporal_subgraph True" None True]
  by (simp add: tdc_defs pair_graph_def example_heap_def temporal_degree_centrality_at_def
      graph_at_def list_at_def counts_at_def scores_at_def heap_get_def labels_argument_def
      rebind_graph_def rebind_labels_def alloc_def increment_at_def
      sorted_temporal_degree_at_def)

end
